theory Spec2Isabelle
  imports Main
begin

text \<open>
  The backend of the repository (\<^verbatim>\<open>backend/main.py\<close>) fetches the fasting days of Ramadan from
  IslamicAPI and returns them with the times of sahur and iftar in 24-hour form. This theory
  embeds its two functions, \<^verbatim>\<open>_to_24h_hhmm\<close> and \<^verbatim>\<open>get_ramadan\<close>, with the parts of the Python
  library that they call, and proves the properties that the specification states of them.
\<close>

section \<open>Python strings\<close>

text \<open>
  A Python \<open>str\<close> is modelled as a \<open>string\<close>: a list of characters, each standing for the
  code point of the same number, so the strings of the model are those with code points below
  256. Among these the decimal digits are \<open>0\<close> to \<open>9\<close>, and the whitespace characters are the
  ones listed in \<open>isspace\<close>.
\<close>

definition isspace :: "char \<Rightarrow> bool" where
  \<comment> \<open>\<open>str.isspace\<close>, which is also the class \<open>\s\<close> of \<open>re\<close> on a \<open>str\<close> pattern:
      code points 9-13, 28-32, 0x85 and 0xA0.\<close>
  "isspace c = (let n = (of_char c :: nat) in
     (9 \<le> n \<and> n \<le> 13) \<or> (28 \<le> n \<and> n \<le> 32) \<or> n = 133 \<or> n = 160)"

definition isdigit :: "char \<Rightarrow> bool" where
  \<comment> \<open>the class \<open>\d\<close> of \<open>re\<close>: the decimal digits, here \<open>0\<close> to \<open>9\<close>.\<close>
  "isdigit c = (let n = (of_char c :: nat) in 48 \<le> n \<and> n \<le> 57)"

definition in_range :: "char \<Rightarrow> char \<Rightarrow> char \<Rightarrow> bool" where
  \<comment> \<open>the character class \<open>[lo-hi]\<close>.\<close>
  "in_range lo hi c = ((of_char lo :: nat) \<le> of_char c \<and> (of_char c :: nat) \<le> of_char hi)"

definition lower_char :: "char \<Rightarrow> char" where
  \<comment> \<open>\<open>str.lower\<close> on one character: the capital letters are \<open>A\<close> to \<open>Z\<close> and the
      code points 0xC0 to 0xDE without 0xD7, each 32 below its small letter.\<close>
  "lower_char c =
     (let n = (of_char c :: nat) in
      if (65 \<le> n \<and> n \<le> 90) \<or> (192 \<le> n \<and> n \<le> 222 \<and> n \<noteq> 215) then char_of (n + 32)
      else c)"

definition lower :: "string \<Rightarrow> string" where
  "lower s = map lower_char s"

definition strip :: "string \<Rightarrow> string" where
  \<comment> \<open>\<open>str.strip()\<close>: whitespace removed at both ends.\<close>
  "strip s = rev (dropWhile isspace (rev (dropWhile isspace s)))"

fun split_at :: "char \<Rightarrow> string \<Rightarrow> string list" where
  \<comment> \<open>\<open>s.split(sep)\<close> for a separator of one character.\<close>
  "split_at sep [] = [[]]"
| "split_at sep (c # cs) =
     (if c = sep then [] # split_at sep cs
      else (case split_at sep cs of [] \<Rightarrow> [[c]] | w # ws \<Rightarrow> (c # w) # ws))"

definition digit_val :: "char \<Rightarrow> nat" where
  "digit_val c = of_char c - 48"

definition py_int :: "string \<Rightarrow> nat" where
  \<comment> \<open>\<open>int(s)\<close> on a string of decimal digits, the only strings the callers pass.\<close>
  "py_int s = foldl (\<lambda>n c. 10 * n + digit_val c) 0 s"

definition digit_char :: "nat \<Rightarrow> char" where
  "digit_char d = char_of (48 + d)"

fun dec :: "nat \<Rightarrow> string" where
  \<comment> \<open>the decimal digits of a number, without padding.\<close>
  "dec n = (if n < 10 then [digit_char n] else dec (n div 10) @ [digit_char (n mod 10)])"

declare dec.simps [simp del]

definition fmt_02d :: "nat \<Rightarrow> string" where
  \<comment> \<open>the format \<open>02d\<close>: at least two digits, padded with zeros on the left.\<close>
  "fmt_02d n = (if n < 10 then CHR ''0'' # dec n else dec n)"

section \<open>Errors\<close>

datatype error =
    ValueError string
  | AttributeError
  | TypeError
  | KeyError string
  | HTTPException nat string

section \<open>The regular expressions\<close>

text \<open>
  A piece of a regular expression is a function from the text to the list of its matches at the
  start of the text, in the order in which the backtracking matcher tries them; a match is the
  text that is left, with the text of the group where the piece is a group. The pattern of
  \<open>strptime\<close> is the one that \<^verbatim>\<open>_strptime.py\<close> of CPython builds from the format, with the
  names \<open>am\<close> and \<open>pm\<close> of the C locale for \<open>%p\<close>.
\<close>

definition fullmatch_hhmm :: "string \<Rightarrow> bool" where
  \<comment> \<open>\<open>re.fullmatch(r"\d{1,2}:\d{2}", s)\<close>\<close>
  "fullmatch_hhmm s =
     (case s of
        [a, b, c, d, e] \<Rightarrow> isdigit a \<and> isdigit b \<and> c = CHR '':'' \<and> isdigit d \<and> isdigit e
      | [a, c, d, e] \<Rightarrow> isdigit a \<and> c = CHR '':'' \<and> isdigit d \<and> isdigit e
      | _ \<Rightarrow> False)"

definition re_lit :: "char \<Rightarrow> string \<Rightarrow> string list" where
  "re_lit x s = (case s of [] \<Rightarrow> [] | c # r \<Rightarrow> if c = x then [r] else [])"

definition re_I :: "string \<Rightarrow> (string \<times> string) list" where
  \<comment> \<open>\<open>(?P<I>1[0-2]|0[1-9]|[1-9])\<close>\<close>
  "re_I s =
     (case s of a # b # r \<Rightarrow>
        if a = CHR ''1'' \<and> in_range CHR ''0'' CHR ''2'' b then [([a, b], r)] else [] | _ \<Rightarrow> []) @
     (case s of a # b # r \<Rightarrow>
        if a = CHR ''0'' \<and> in_range CHR ''1'' CHR ''9'' b then [([a, b], r)] else [] | _ \<Rightarrow> []) @
     (case s of a # r \<Rightarrow>
        if in_range CHR ''1'' CHR ''9'' a then [([a], r)] else [] | _ \<Rightarrow> [])"

definition re_M :: "string \<Rightarrow> (string \<times> string) list" where
  \<comment> \<open>\<open>(?P<M>[0-5]\d|\d)\<close>\<close>
  "re_M s =
     (case s of a # b # r \<Rightarrow>
        if in_range CHR ''0'' CHR ''5'' a \<and> isdigit b then [([a, b], r)] else [] | _ \<Rightarrow> []) @
     (case s of a # r \<Rightarrow> if isdigit a then [([a], r)] else [] | _ \<Rightarrow> [])"

definition re_spaces :: "string \<Rightarrow> string list" where
  \<comment> \<open>\<open>\s+\<close>, greedy: the longest run of whitespace first, then the shorter ones.\<close>
  "re_spaces s = map (\<lambda>k. drop k s) (rev [1 ..< Suc (length (takeWhile isspace s))])"

definition re_p :: "string \<Rightarrow> (string \<times> string) list" where
  \<comment> \<open>\<open>(?P<p>am|pm)\<close> under \<open>IGNORECASE\<close>: a letter of the pattern matches the characters
      whose small letter it is.\<close>
  "re_p s =
     (case s of a # b # r \<Rightarrow> if lower [a, b] = ''am'' then [([a, b], r)] else [] | _ \<Rightarrow> []) @
     (case s of a # b # r \<Rightarrow> if lower [a, b] = ''pm'' then [([a, b], r)] else [] | _ \<Rightarrow> [])"

definition format_regex :: "string \<Rightarrow> (string \<times> string \<times> string \<times> string) list" where
  \<comment> \<open>the pattern that \<open>_strptime\<close> compiles from the format \<open>%I:%M %p\<close>:
      \<open>(?P<I>1[0-2]|0[1-9]|[1-9]):(?P<M>[0-5]\d|\d)\s+(?P<p>am|pm)\<close>.\<close>
  "format_regex s =
     [(I, M, p, r5).
        (I, r1) \<leftarrow> re_I s, r2 \<leftarrow> re_lit CHR '':'' r1, (M, r3) \<leftarrow> re_M r2,
        r4 \<leftarrow> re_spaces r3, (p, r5) \<leftarrow> re_p r4]"

definition strptime :: "string \<Rightarrow> error + nat \<times> nat" where
  \<comment> \<open>\<open>datetime.strptime(data_string, "%I:%M %p")\<close>; the result is the hour and the minute
      of the datetime.\<close>
  "strptime data_string =
     (case format_regex data_string of
        [] \<Rightarrow> Inl (ValueError ''time data does not match format'')
      | (I, M, p, rest) # _ \<Rightarrow>
          if rest \<noteq> [] then Inl (ValueError ''unconverted data remains'')
          else
            let hour = py_int I;
                ampm = lower p;
                hour = (if ampm = ''am'' then (if hour = 12 then 0 else hour)
                        else if ampm = ''pm'' then (if hour \<noteq> 12 then hour + 12 else hour)
                        else hour);
                minute = py_int M
            in if hour < 24 \<and> minute < 60 then Inr (hour, minute)
               else Inl (ValueError ''hour or minute out of range''))"

definition strftime :: "nat \<times> nat \<Rightarrow> string" where
  \<comment> \<open>\<open>dt.strftime("%H:%M")\<close>\<close>
  "strftime dt = fmt_02d (fst dt) @ '':'' @ fmt_02d (snd dt)"

section \<open>The time normalizer\<close>

definition to_24h_hhmm :: "string \<Rightarrow> error + string" where
  "to_24h_hhmm time_str =
     (let s = strip time_str in
      if fullmatch_hhmm s then
        (case split_at CHR '':'' s of
           [hh, mm] \<Rightarrow> Inr (fmt_02d (py_int hh) @ '':'' @ fmt_02d (py_int mm))
         | _ \<Rightarrow> Inl (ValueError ''wrong number of values to unpack''))
      else
        (case strptime s of
           Inr dt \<Rightarrow> Inr (strftime dt)
         | Inl e \<Rightarrow> Inl (ValueError (''Unrecognized time format: '' @ [CHR 0x27] @ time_str @ [CHR 0x27]))))"

section \<open>Decoded JSON\<close>

text \<open>
  The values that \<open>resp.json()\<close> can return, and of which the response is built. A dict is an
  association list in insertion order; a key is looked up at its first entry.
\<close>

datatype pyfloat = Finite int int | Infinity bool | NaN

datatype pyval =
    PyNone
  | PyBool bool
  | PyInt int
  | PyFloat pyfloat
  | PyStr string
  | PyList "pyval list"
  | PyDict "(string \<times> pyval) list"

fun truthy :: "pyval \<Rightarrow> bool" where
  \<comment> \<open>the truth value of an object, as \<open>not\<close> and \<open>and\<close> take it.\<close>
  "truthy PyNone = False"
| "truthy (PyBool b) = b"
| "truthy (PyInt i) = (i \<noteq> 0)"
| "truthy (PyFloat f) = (case f of Finite m e \<Rightarrow> m \<noteq> 0 | _ \<Rightarrow> True)"
| "truthy (PyStr s) = (s \<noteq> [])"
| "truthy (PyList xs) = (xs \<noteq> [])"
| "truthy (PyDict kvs) = (kvs \<noteq> [])"

definition getitem :: "pyval \<Rightarrow> string \<Rightarrow> error + pyval" where
  \<comment> \<open>\<open>obj[key]\<close> with a string key: only a dict can be subscripted so.\<close>
  "getitem obj k =
     (case obj of
        PyDict kvs \<Rightarrow> (case map_of kvs k of Some v \<Rightarrow> Inr v | None \<Rightarrow> Inl (KeyError k))
      | _ \<Rightarrow> Inl TypeError)"

definition dict_get :: "pyval \<Rightarrow> string \<Rightarrow> pyval \<Rightarrow> error + pyval" where
  \<comment> \<open>\<open>obj.get(key, default)\<close>: only a dict has the method.\<close>
  "dict_get obj k dflt =
     (case obj of
        PyDict kvs \<Rightarrow> Inr (case map_of kvs k of Some v \<Rightarrow> v | None \<Rightarrow> dflt)
      | _ \<Rightarrow> Inl AttributeError)"

definition py_iter :: "pyval \<Rightarrow> error + pyval list" where
  \<comment> \<open>the elements that \<open>for day in obj\<close> visits: the items of a list, the keys of a dict,
      the characters of a string; nothing else is iterable.\<close>
  "py_iter obj =
     (case obj of
        PyList xs \<Rightarrow> Inr xs
      | PyDict kvs \<Rightarrow> Inr (map (\<lambda>kv. PyStr (fst kv)) kvs)
      | PyStr s \<Rightarrow> Inr (map (\<lambda>c. PyStr [c]) s)
      | _ \<Rightarrow> Inl TypeError)"

section \<open>The fetcher\<close>

definition call_to_24h_hhmm :: "pyval \<Rightarrow> error + string" where
  \<comment> \<open>the call \<open>_to_24h_hhmm(x)\<close> on an object of any type: \<open>x.strip()\<close> exists on a string only.\<close>
  "call_to_24h_hhmm x = (case x of PyStr s \<Rightarrow> to_24h_hhmm s | _ \<Rightarrow> Inl AttributeError)"

definition loop_body :: "pyval \<Rightarrow> error + pyval option" where
  \<comment> \<open>one round of the loop over \<open>fasting_days\<close>: \<open>Inr None\<close> is \<open>continue\<close>,
      \<open>Inr (Some r)\<close> is \<open>out.append(r)\<close>, \<open>Inl e\<close> an exception that leaves the loop.\<close>
  "loop_body day =
     (case dict_get day ''date'' PyNone of Inl e \<Rightarrow> Inl e | Inr date_str \<Rightarrow>
     (case dict_get day ''time'' (PyDict []) of Inl e \<Rightarrow> Inl e | Inr time_obj \<Rightarrow>
     (case dict_get time_obj ''sahur'' PyNone of Inl e \<Rightarrow> Inl e | Inr sahur_raw \<Rightarrow>
     (case dict_get time_obj ''iftar'' PyNone of Inl e \<Rightarrow> Inl e | Inr iftar_raw \<Rightarrow>
        if \<not> (truthy date_str \<and> truthy sahur_raw \<and> truthy iftar_raw) then Inr None
        else
          (case call_to_24h_hhmm sahur_raw of
             Inl (ValueError m) \<Rightarrow> Inr None
           | Inl e \<Rightarrow> Inl e
           | Inr sahur_24 \<Rightarrow>
          (case call_to_24h_hhmm iftar_raw of
             Inl (ValueError m) \<Rightarrow> Inr None
           | Inl e \<Rightarrow> Inl e
           | Inr iftar_24 \<Rightarrow>
          (case dict_get day ''hijri_readable'' PyNone of Inl e \<Rightarrow> Inl e | Inr hijri \<Rightarrow>
          (case dict_get day ''day'' PyNone of Inl e \<Rightarrow> Inl e | Inr day_no \<Rightarrow>
             Inr (Some (PyDict
               [(''date'', date_str),
                (''sahur'', PyStr sahur_24),
                (''iftar'', PyStr iftar_24),
                (''hijri_readable'', hijri),
                (''day'', day_no)]))))))))))"

fun for_days :: "pyval list \<Rightarrow> pyval list \<Rightarrow> error + pyval list" where
  \<comment> \<open>the loop, with \<open>out\<close> as its state.\<close>
  "for_days [] out = Inr out"
| "for_days (day # days) out =
     (case loop_body day of
        Inl e \<Rightarrow> Inl e
      | Inr None \<Rightarrow> for_days days out
      | Inr (Some r) \<Rightarrow> for_days days (out @ [r]))"

text \<open>
  The outcome of the one request to IslamicAPI (made with \<open>lat\<close>, \<open>lon\<close> and the key):
  \<open>HTTPStatusError code body\<close> when \<open>raise_for_status\<close> raises, with the status code and the
  rendering of the response body that is appended to the detail; \<open>RequestFailed e\<close> for any other
  exception, with its message; \<open>Payload p\<close> for a decoded body.
\<close>

datatype upstream =
    HTTPStatusError nat string
  | RequestFailed string
  | Payload pyval

definition missing_key_error :: error where
  "missing_key_error = HTTPException 500 ''Missing ISLAMIC_API_KEY. Add it to backend/.env''"

definition upstream_shape_error :: error where
  "upstream_shape_error =
     HTTPException 502 ''Unexpected IslamicAPI response shape (missing data.fasting).''"

definition empty_result_error :: error where
  "empty_result_error = HTTPException 502 ''No fasting days returned from IslamicAPI.''"

definition get_ramadan :: "string option \<Rightarrow> upstream \<Rightarrow> error + pyval list" where
  \<comment> \<open>\<open>api_key\<close> is the value of \<open>os.getenv("ISLAMIC_API_KEY")\<close>.\<close>
  "get_ramadan api_key resp =
     (if api_key = None \<or> api_key = Some [] then Inl missing_key_error
      else
        case resp of
          HTTPStatusError code body \<Rightarrow>
            Inl (HTTPException 502
                   (''Upstream IslamicAPI error: HTTP '' @ dec code @ '' - '' @ body))
        | RequestFailed e \<Rightarrow>
            Inl (HTTPException 502 (''Failed to fetch Ramadan data: '' @ e))
        | Payload payload \<Rightarrow>
            (case (case getitem payload ''data'' of
                     Inl e \<Rightarrow> Inl e
                   | Inr data \<Rightarrow> getitem data ''fasting'') of
               Inl e \<Rightarrow> Inl upstream_shape_error
             | Inr fasting_days \<Rightarrow>
                 (case py_iter fasting_days of
                    Inl e \<Rightarrow> Inl e
                  | Inr days \<Rightarrow>
                      (case for_days days [] of
                         Inl e \<Rightarrow> Inl e
                       | Inr out \<Rightarrow> if out = [] then Inl empty_result_error else Inr out))))"

section \<open>The vocabulary of the specification\<close>

text \<open>
  The definitions of this section follow the words of the specification, not the code: the
  patterns of time strings (the two of the specification, and the lenient one that states in
  the same words what \<open>strptime\<close> accepts), the fields of a raw record, and the clean record of
  a raw one.
\<close>

definition hour24 :: "nat \<Rightarrow> string \<Rightarrow> nat" where
  \<comment> \<open>the hour of the 24-hour clock for an hour of the 12-hour clock and its meridiem.\<close>
  "hour24 h mer = h mod 12 + (if mer = ''PM'' then 12 else 0)"

definition digits :: string where
  \<comment> \<open>the ten digits, each at the place of its value.\<close>
  "digits = ''0123456789''"

definition digit_value :: "char \<Rightarrow> nat" where
  \<comment> \<open>the value of a digit: its place among the ten digits.\<close>
  "digit_value c = length (takeWhile (\<lambda>d. d \<noteq> c) digits)"

definition number :: "string \<Rightarrow> nat" where
  \<comment> \<open>the number that a text of digits writes.\<close>
  "number ds = foldl (\<lambda>n c. 10 * n + digit_value c) 0 ds"

definition two_digits :: "nat \<Rightarrow> string" where
  \<comment> \<open>a number below 100 written with two digits, zero-padded: \<open>HH\<close> and \<open>MM\<close>.\<close>
  "two_digits n = [digits ! (n div 10 mod 10), digits ! (n mod 10)]"

definition read_12h :: "string \<Rightarrow> string \<Rightarrow> string \<Rightarrow> (nat \<times> nat \<times> string) option" where
  \<comment> \<open>the time that an hour text, a minute text and a meridiem write: an hour between 1 and
      12, a minute between 00 and 59, \<open>AM\<close> or \<open>PM\<close>.\<close>
  "read_12h hh mm mer =
     (if (\<forall>c\<in>set (hh @ mm). c \<in> set digits) \<and> 1 \<le> number hh \<and> number hh \<le> 12 \<and>
         number mm \<le> 59 \<and> (mer = ''AM'' \<or> mer = ''PM'')
      then Some (number hh, number mm, mer) else None)"

definition parse_12h :: "string \<Rightarrow> (nat \<times> nat \<times> string) option" where
  \<comment> \<open>the time that a text of the form \<open>H:MM AM\<close> or \<open>H:MM PM\<close> writes, with an hour of one
      or two digits and a minute of two digits; \<open>None\<close> for every other text.\<close>
  "parse_12h s =
     (case s of
        [h1, c, m1, m2, sp, a, b] \<Rightarrow>
          if c = CHR '':'' \<and> sp = CHR '' '' then read_12h [h1] [m1, m2] [a, b] else None
      | [h1, h2, c, m1, m2, sp, a, b] \<Rightarrow>
          if c = CHR '':'' \<and> sp = CHR '' '' then read_12h [h1, h2] [m1, m2] [a, b] else None
      | _ \<Rightarrow> None)"

definition spec_12h_pattern :: "string \<Rightarrow> bool" where
  \<comment> \<open>\<open>H:MM AM\<close> or \<open>H:MM PM\<close>: an hour of one or two digits from 1 to 12, a minute of two
      digits from 00 to 59, one space, \<open>AM\<close> or \<open>PM\<close> in capitals.\<close>
  "spec_12h_pattern s =
     (let hh = takeWhile isdigit s in
      (length hh = 1 \<or> length hh = 2) \<and> 1 \<le> py_int hh \<and> py_int hh \<le> 12 \<and>
      (case dropWhile isdigit s of
         [c, d, e, sp, a, b] \<Rightarrow>
           c = CHR '':'' \<and> isdigit d \<and> isdigit e \<and> py_int [d, e] < 60 \<and> sp = CHR '' '' \<and>
           ([a, b] = ''AM'' \<or> [a, b] = ''PM'')
       | _ \<Rightarrow> False))"

definition spec_fast_pattern :: "string \<Rightarrow> bool" where
  \<comment> \<open>\<open>\d{1,2}:\d{2}\<close>: one or two digits, a colon, two digits.\<close>
  "spec_fast_pattern s =
     (let hh = takeWhile isdigit s in
      (length hh = 1 \<or> length hh = 2) \<and>
      (case dropWhile isdigit s of
         [c, d, e] \<Rightarrow> c = CHR '':'' \<and> isdigit d \<and> isdigit e
       | _ \<Rightarrow> False))"

definition lenient_12h_pattern :: "string \<Rightarrow> bool" where
  \<comment> \<open>what \<open>%I:%M %p\<close> accepts: an hour of one or two digits from 1 to 12, a colon, a minute
      of one digit or of two digits up to 59, one or more whitespace characters, and \<open>am\<close> or
      \<open>pm\<close> in any mix of cases.\<close>
  "lenient_12h_pattern s =
     (let hh = takeWhile isdigit s;
          r1 = dropWhile isdigit s;
          mm = takeWhile isdigit (tl r1);
          r2 = dropWhile isdigit (tl r1);
          ws = takeWhile isspace r2;
          p = dropWhile isspace r2
      in (length hh = 1 \<or> length hh = 2) \<and> 1 \<le> py_int hh \<and> py_int hh \<le> 12 \<and>
         r1 \<noteq> [] \<and> hd r1 = CHR '':'' \<and>
         (length mm = 1 \<or> length mm = 2 \<and> py_int mm < 60) \<and>
         ws \<noteq> [] \<and> (lower p = ''am'' \<or> lower p = ''pm''))"

fun field :: "pyval \<Rightarrow> string list \<Rightarrow> pyval option" where
  \<comment> \<open>the value at a path of member names, when every step of the path is there.\<close>
  "field v [] = Some v"
| "field v (k # ks) =
     (case v of
        PyDict kvs \<Rightarrow> (case map_of kvs k of Some w \<Rightarrow> field w ks | None \<Rightarrow> None)
      | _ \<Rightarrow> None)"

definition missing_or_empty :: "pyval option \<Rightarrow> bool" where
  "missing_or_empty f = (case f of None \<Rightarrow> True | Some v \<Rightarrow> \<not> truthy v)"

definition normalizes :: "pyval option \<Rightarrow> bool" where
  \<comment> \<open>the field is a time string that the normalizer accepts.\<close>
  "normalizes f = (case f of Some (PyStr s) \<Rightarrow> \<not> isl (to_24h_hhmm s) | _ \<Rightarrow> False)"

definition fails_to_normalize :: "pyval option \<Rightarrow> bool" where
  \<comment> \<open>the field is a time string that the normalizer rejects.\<close>
  "fails_to_normalize f = (case f of Some (PyStr s) \<Rightarrow> isl (to_24h_hhmm s) | _ \<Rightarrow> False)"

definition malformed :: "pyval \<Rightarrow> bool" where
  \<comment> \<open>\<open>date\<close>, \<open>time.sahur\<close> or \<open>time.iftar\<close> is missing or empty, or normalizing either
      time string fails.\<close>
  "malformed day =
     (missing_or_empty (field day [''date'']) \<or>
      missing_or_empty (field day [''time'', ''sahur'']) \<or>
      missing_or_empty (field day [''time'', ''iftar'']) \<or>
      fails_to_normalize (field day [''time'', ''sahur'']) \<or>
      fails_to_normalize (field day [''time'', ''iftar'']))"

definition well_formed :: "pyval \<Rightarrow> bool" where
  \<comment> \<open>non-empty \<open>date\<close>, \<open>time.sahur\<close> and \<open>time.iftar\<close>, with both times normalizable.\<close>
  "well_formed day =
     (\<not> missing_or_empty (field day [''date'']) \<and>
      \<not> missing_or_empty (field day [''time'', ''sahur'']) \<and>
      \<not> missing_or_empty (field day [''time'', ''iftar'']) \<and>
      normalizes (field day [''time'', ''sahur'']) \<and>
      normalizes (field day [''time'', ''iftar'']))"

definition or_null :: "pyval option \<Rightarrow> pyval" where
  "or_null f = (case f of None \<Rightarrow> PyNone | Some v \<Rightarrow> v)"

definition normalized :: "pyval option \<Rightarrow> pyval" where
  "normalized f =
     (case f of
        Some (PyStr s) \<Rightarrow> (case to_24h_hhmm s of Inr t \<Rightarrow> PyStr t | Inl e \<Rightarrow> PyNone)
      | _ \<Rightarrow> PyNone)"

definition clean :: "pyval \<Rightarrow> pyval" where
  \<comment> \<open>the clean record of a well-formed raw record.\<close>
  "clean day =
     PyDict
       [(''date'', or_null (field day [''date''])),
        (''sahur'', normalized (field day [''time'', ''sahur''])),
        (''iftar'', normalized (field day [''time'', ''iftar''])),
        (''hijri_readable'', or_null (field day [''hijri_readable''])),
        (''day'', or_null (field day [''day'']))]"

definition str_or_null :: "pyval option \<Rightarrow> bool" where
  "str_or_null f =
     (case f of None \<Rightarrow> True | Some PyNone \<Rightarrow> True | Some (PyStr s) \<Rightarrow> True | _ \<Rightarrow> False)"

definition raw_record :: "pyval \<Rightarrow> bool" where
  \<comment> \<open>an object whose member \<open>time\<close>, when it is there, is an object whose members \<open>sahur\<close>
      and \<open>iftar\<close>, when they are there, are strings or null.\<close>
  "raw_record day =
     (case day of
        PyDict kvs \<Rightarrow>
          (case map_of kvs ''time'' of
             None \<Rightarrow> True
           | Some (PyDict t) \<Rightarrow> str_or_null (map_of t ''sahur'') \<and> str_or_null (map_of t ''iftar'')
           | _ \<Rightarrow> False)
      | _ \<Rightarrow> False)"

definition envelope :: "pyval \<Rightarrow> pyval" where
  \<comment> \<open>the body \<open>{"data": {"fasting": x}}\<close>.\<close>
  "envelope x = PyDict [(''data'', PyDict [(''fasting'', x)])]"

definition keys :: "pyval \<Rightarrow> string list" where
  \<comment> \<open>the keys of a dict, in order.\<close>
  "keys v = (case v of PyDict kvs \<Rightarrow> map fst kvs | _ \<Rightarrow> [])"

definition has_fasting_list :: "pyval \<Rightarrow> bool" where
  \<comment> \<open>the body contains a list at path \<open>data.fasting\<close>.\<close>
  "has_fasting_list payload =
     (case field payload [''data'', ''fasting''] of Some (PyList xs) \<Rightarrow> True | _ \<Rightarrow> False)"

definition example_day :: pyval where
  \<comment> \<open>the raw record of the end-to-end example.\<close>
  "example_day =
     PyDict
       [(''date'', PyStr ''2025-03-01''),
        (''day'', PyInt 1),
        (''hijri_readable'', PyStr ''1 Ramadan 1446''),
        (''time'', PyDict [(''sahur'', PyStr ''5:42 AM''), (''iftar'', PyStr ''5:48 PM'')])]"

definition example_clean :: pyval where
  \<comment> \<open>the clean record of the end-to-end example.\<close>
  "example_clean =
     PyDict
       [(''date'', PyStr ''2025-03-01''),
        (''sahur'', PyStr ''05:42''),
        (''iftar'', PyStr ''17:48''),
        (''hijri_readable'', PyStr ''1 Ramadan 1446''),
        (''day'', PyInt 1)]"

section \<open>Characters, digits and the two-digit format\<close>

lemma colon_iff: "c = CHR '':'' \<longleftrightarrow> of_char c = (58::nat)"
proof -
  have "of_char CHR '':'' = (58::nat)" by simp
  then show ?thesis by (metis of_char_eq_iff)
qed

lemma digit_char_0: "digit_char 0 = CHR ''0''"
  by (simp add: digit_char_def char_of_eq_iff)

lemma zero_iff: "c = CHR ''0'' \<longleftrightarrow> of_char c = (48::nat)"
proof -
  have "of_char CHR ''0'' = (48::nat)" by simp
  then show ?thesis by (metis of_char_eq_iff)
qed

lemma one_iff: "c = CHR ''1'' \<longleftrightarrow> of_char c = (49::nat)"
proof -
  have "of_char CHR ''1'' = (49::nat)" by simp
  then show ?thesis by (metis of_char_eq_iff)
qed

lemma digit_char_val: "isdigit c \<Longrightarrow> digit_char (digit_val c) = c"
  by (simp add: isdigit_def digit_char_def digit_val_def Let_def)

lemma digit_val_lt: "isdigit c \<Longrightarrow> digit_val c < 10"
  by (auto simp add: isdigit_def digit_val_def Let_def)

lemma isdigit_digit_char: "d < 10 \<Longrightarrow> isdigit (digit_char d)"
  by (simp add: isdigit_def digit_char_def Let_def)

lemma digit_val_char: "d < 10 \<Longrightarrow> digit_val (digit_char d) = d"
  by (simp add: digit_val_def digit_char_def)

lemma isdigit_not_colon: "isdigit c \<Longrightarrow> c \<noteq> CHR '':''"
  by (auto simp add: isdigit_def Let_def)

lemma isdigit_not_space: "isdigit c \<Longrightarrow> \<not> isspace c"
  by (auto simp add: isdigit_def isspace_def Let_def)

lemma space_not_digit: "isspace c \<Longrightarrow> \<not> isdigit c"
  using isdigit_not_space by blast

lemma dec_small: "n < 10 \<Longrightarrow> dec n = [digit_char n]"
  by (simp add: dec.simps)

lemma dec_two: "10 \<le> n \<Longrightarrow> n < 100 \<Longrightarrow> dec n = [digit_char (n div 10), digit_char (n mod 10)]"
  by (subst dec.simps) (simp add: dec_small)

lemma fmt_02d_lt100: "n < 100 \<Longrightarrow> fmt_02d n = [digit_char (n div 10), digit_char (n mod 10)]"
  by (cases "n < 10") (simp_all add: fmt_02d_def dec_small dec_two digit_char_0)

lemma py_int1: "py_int [a] = digit_val a"
  by (simp add: py_int_def)

lemma py_int2: "py_int [a, b] = 10 * digit_val a + digit_val b"
  by (simp add: py_int_def)

lemmas char_arith = isdigit_def in_range_def digit_val_def Let_def zero_iff one_iff colon_iff
  py_int1 py_int2

lemma fmt_py_int2: "isdigit a \<Longrightarrow> isdigit b \<Longrightarrow> fmt_02d (py_int [a, b]) = [a, b]"
  using digit_val_lt [of a] digit_val_lt [of b]
  by (simp add: py_int2 fmt_02d_lt100 digit_char_val)

lemma fmt_py_int1: "isdigit a \<Longrightarrow> fmt_02d (py_int [a]) = [CHR ''0'', a]"
  using digit_val_lt [of a]
  by (simp add: py_int1 fmt_02d_lt100 digit_char_val digit_char_0)

lemma py_int_fmt: "n < 100 \<Longrightarrow> py_int (fmt_02d n) = n"
  by (simp add: fmt_02d_lt100 py_int2 digit_val_char)

lemma fmt_02d_digits: "n < 100 \<Longrightarrow> \<exists>a b. fmt_02d n = [a, b] \<and> isdigit a \<and> isdigit b"
  by (simp add: fmt_02d_lt100 isdigit_digit_char)

lemma len1: "length I = Suc 0 \<longleftrightarrow> (\<exists>a. I = [a])"
  by (cases I) auto

lemma len2: "length I = 2 \<longleftrightarrow> (\<exists>a b. I = [a, b])"
  by (cases I; cases "tl I") auto

lemma strip_id: "s \<noteq> [] \<Longrightarrow> \<not> isspace (hd s) \<Longrightarrow> \<not> isspace (last s) \<Longrightarrow> strip s = s"
proof -
  assume a: "s \<noteq> []" "\<not> isspace (hd s)" "\<not> isspace (last s)"
  then have "dropWhile isspace s = s" by (cases s) simp_all
  moreover from a have "dropWhile isspace (rev s) = rev s"
    by (cases "rev s") (simp_all add: hd_rev [symmetric])
  ultimately show ?thesis by (simp add: strip_def)
qed

lemma takeWhile_run:
  "list_all P xs \<Longrightarrow> ys = [] \<or> \<not> P (hd ys) \<Longrightarrow> takeWhile P (xs @ ys) = xs"
  by (induction xs) (auto simp add: takeWhile_eq_Nil_iff neq_Nil_conv)

lemma dropWhile_run:
  "list_all P xs \<Longrightarrow> ys = [] \<or> \<not> P (hd ys) \<Longrightarrow> dropWhile P (xs @ ys) = ys"
  by (induction xs) (auto simp add: dropWhile_eq_self_iff)

section \<open>The fast path\<close>

lemma fullmatch_hhmm_cases:
  "fullmatch_hhmm s \<longleftrightarrow>
     (\<exists>a d e. s = [a, CHR '':'', d, e] \<and> isdigit a \<and> isdigit d \<and> isdigit e) \<or>
     (\<exists>a b d e. s = [a, b, CHR '':'', d, e] \<and> isdigit a \<and> isdigit b \<and> isdigit d \<and> isdigit e)"
  by (auto simp add: fullmatch_hhmm_def isdigit_not_colon split: list.splits)

lemma fullmatch_hhmm_length: "fullmatch_hhmm s \<Longrightarrow> length s \<le> 5"
  unfolding fullmatch_hhmm_cases by auto

lemma split_at_1: "isdigit a \<Longrightarrow> isdigit d \<Longrightarrow> isdigit e \<Longrightarrow>
  split_at CHR '':'' [a, CHR '':'', d, e] = [[a], [d, e]]"
  by (simp add: isdigit_not_colon)

lemma split_at_2: "isdigit a \<Longrightarrow> isdigit b \<Longrightarrow> isdigit d \<Longrightarrow> isdigit e \<Longrightarrow>
  split_at CHR '':'' [a, b, CHR '':'', d, e] = [[a, b], [d, e]]"
  by (simp add: isdigit_not_colon)

lemma spec_fast_iff: "spec_fast_pattern s \<longleftrightarrow> fullmatch_hhmm s"
proof
  assume f: "fullmatch_hhmm s"
  have c: "\<not> isdigit CHR '':''" by (simp add: isdigit_def)
  from f show "spec_fast_pattern s"
    unfolding fullmatch_hhmm_cases spec_fast_pattern_def Let_def using c by auto
next
  assume a: "spec_fast_pattern s"
  let ?hh = "takeWhile isdigit s"
  from a obtain d e where r: "dropWhile isdigit s = [CHR '':'', d, e]" "isdigit d" "isdigit e"
    unfolding spec_fast_pattern_def Let_def by (auto split: list.splits)
  have s: "s = ?hh @ [CHR '':'', d, e]" using r(1) by (metis takeWhile_dropWhile_id)
  have dg: "list_all isdigit ?hh" by (auto simp add: list_all_iff dest: set_takeWhileD)
  from a have "length ?hh = 1 \<or> length ?hh = 2"
    unfolding spec_fast_pattern_def Let_def by simp
  then consider x where "?hh = [x]" | x y where "?hh = [x, y]"
    by (auto simp add: len1 len2)
  then show "fullmatch_hhmm s"
  proof cases
    case 1
    with dg have "isdigit x" by simp
    with 1 s r show ?thesis unfolding fullmatch_hhmm_cases by auto 
  next
    case 2
    with dg have "isdigit x" "isdigit y" by simp_all
    with 2 s r show ?thesis unfolding fullmatch_hhmm_cases by auto
  qed
qed

section \<open>The pattern of \<open>%I:%M %p\<close>\<close>

lemma re_lit_mem: "r2 \<in> set (re_lit c r1) \<longleftrightarrow> r1 = c # r2"
  by (auto simp add: re_lit_def split: list.splits)

lemma re_I_mem:
  "(I, r1) \<in> set (re_I s) \<longleftrightarrow>
     s = I @ r1 \<and> list_all isdigit I \<and> (length I = 1 \<or> length I = 2) \<and>
     1 \<le> py_int I \<and> py_int I \<le> 12"
  (is "?L \<longleftrightarrow> ?R")
proof
  assume ?L
  then show ?R
    unfolding re_I_def
    by (auto split: list.splits if_splits simp add: char_arith)
next
  assume r: ?R
  then consider a where "I = [a]" | a b where "I = [a, b]"
    by (auto simp add: len1 len2)
  then show ?L
  proof cases
    case 1
    with r show ?thesis
      unfolding re_I_def
      by (cases r1) (auto split: list.splits simp add: char_arith)
  next
    case 2
    with r show ?thesis
      unfolding re_I_def
      by (auto split: list.splits simp add: char_arith)
  qed
qed

lemma re_M_mem:
  "(M, r3) \<in> set (re_M r2) \<longleftrightarrow>
     r2 = M @ r3 \<and> list_all isdigit M \<and> (length M = 1 \<or> length M = 2 \<and> py_int M < 60)"
  (is "?L \<longleftrightarrow> ?R")
proof
  assume ?L
  then show ?R
    unfolding re_M_def
    by (auto split: list.splits if_splits simp add: char_arith)
next
  assume r: ?R
  then consider a where "M = [a]" | a b where "M = [a, b]"
    by (auto simp add: len1 len2)
  then show ?L
  proof cases
    case 1
    with r show ?thesis
      unfolding re_M_def
      by (cases r3) (auto split: list.splits simp add: char_arith)
  next
    case 2
    with r show ?thesis
      unfolding re_M_def
      by (auto split: list.splits simp add: char_arith)
  qed
qed

lemma re_p_mem:
  "(p, r) \<in> set (re_p r4) \<longleftrightarrow> r4 = p @ r \<and> (lower p = ''am'' \<or> lower p = ''pm'')"
  unfolding re_p_def lower_def
  by (auto split: list.splits if_splits)

lemma re_spaces_mem:
  "r4 \<in> set (re_spaces r3) \<longleftrightarrow> (\<exists>ws. r3 = ws @ r4 \<and> ws \<noteq> [] \<and> list_all isspace ws)"
  (is "?L \<longleftrightarrow> ?R")
proof
  assume ?L
  then obtain k where k: "1 \<le> k" "k \<le> length (takeWhile isspace r3)" "r4 = drop k r3"
    by (auto simp add: re_spaces_def)
  have "take k r3 = take k (takeWhile isspace r3)"
    using k(2) by (metis takeWhile_dropWhile_id take_append diff_is_0_eq take_0 append_Nil2)
  then have "list_all isspace (take k r3)"
    by (metis in_set_takeD set_takeWhileD list_all_iff)
  moreover have "take k r3 \<noteq> []"
    using k(1,2) by (cases r3) auto
  ultimately show ?R
    using k(3) by (intro exI [of _ "take k r3"]) simp
next
  assume ?R
  then obtain ws where ws: "r3 = ws @ r4" "ws \<noteq> []" "list_all isspace ws" by blast
  then have "takeWhile isspace r3 = ws @ takeWhile isspace r4"
    by (simp add: takeWhile_append2 list_all_iff)
  then have "length ws \<le> length (takeWhile isspace r3)" by simp
  moreover have "1 \<le> length ws" using ws(2) by (cases ws) auto
  moreover have "r4 = drop (length ws) r3" using ws(1) by simp
  ultimately have "length ws \<in> {1 ..< Suc (length (takeWhile isspace r3))}"
    and "r4 = drop (length ws) r3" by auto
  then show ?L
    unfolding re_spaces_def set_map set_rev set_upt by blast
qed

text \<open>
  The matches of the whole pattern: an hour text, a colon, a minute text, a run of whitespace,
  a meridiem, and what is left.
\<close>

lemma format_regex_mem:
  "(I, M, p, r) \<in> set (format_regex s) \<longleftrightarrow>
     (\<exists>ws. s = I @ CHR '':'' # M @ ws @ p @ r \<and>
        list_all isdigit I \<and> (length I = 1 \<or> length I = 2) \<and> 1 \<le> py_int I \<and> py_int I \<le> 12 \<and>
        list_all isdigit M \<and> (length M = 1 \<or> length M = 2 \<and> py_int M < 60) \<and>
        ws \<noteq> [] \<and> list_all isspace ws \<and> (lower p = ''am'' \<or> lower p = ''pm''))"
  (is "?L \<longleftrightarrow> ?R")
proof -
  have "?L \<longleftrightarrow> (\<exists>r1 r2 r3 r4. (I, r1) \<in> set (re_I s) \<and> r2 \<in> set (re_lit CHR '':'' r1) \<and>
      (M, r3) \<in> set (re_M r2) \<and> r4 \<in> set (re_spaces r3) \<and> (p, r) \<in> set (re_p r4))"
    unfolding format_regex_def by fastforce
  also have "\<dots> \<longleftrightarrow> ?R"
    unfolding re_I_mem re_lit_mem re_M_mem re_spaces_mem re_p_mem by auto
  finally show ?thesis .
qed

lemma meridiem_shape:
  assumes "lower p = ''am'' \<or> lower p = ''pm''"
  shows "\<exists>a b. p = [a, b] \<and> \<not> isspace a"
proof -
  from assms obtain a b where p: "p = [a, b]" and
    a: "lower_char a = CHR ''a'' \<or> lower_char a = CHR ''p''"
    by (auto simp add: lower_def)
  have "of_char (lower_char a) = (97::nat) \<or> of_char (lower_char a) = (112::nat)"
    using a by auto
  then have "\<not> isspace a"
    by (auto simp add: lower_char_def isspace_def Let_def split: if_splits)
  with p show ?thesis by blast
qed

lemma parse_unique:
  assumes s: "s = I @ CHR '':'' # M @ ws @ p @ r"
    and I: "list_all isdigit I" and M: "list_all isdigit M"
    and ws: "ws \<noteq> []" "list_all isspace ws"
    and p: "lower p = ''am'' \<or> lower p = ''pm''"
  shows "takeWhile isdigit s = I"
    and "dropWhile isdigit s = CHR '':'' # M @ ws @ p @ r"
    and "takeWhile isdigit (M @ ws @ p @ r) = M"
    and "dropWhile isdigit (M @ ws @ p @ r) = ws @ p @ r"
    and "takeWhile isspace (ws @ p @ r) = ws"
    and "dropWhile isspace (ws @ p @ r) = p @ r"
    and "take 2 (p @ r) = p" and "drop 2 (p @ r) = r"
proof -
  have c: "\<not> isdigit CHR '':''" by (simp add: isdigit_def)
  show "takeWhile isdigit s = I"
    unfolding s using I c by (intro takeWhile_run) simp_all
  show "dropWhile isdigit s = CHR '':'' # M @ ws @ p @ r"
    unfolding s using I c by (intro dropWhile_run) simp_all
  have w: "\<not> isdigit (hd ((ws @ p @ r)))"
    using ws by (cases ws) (auto simp add: space_not_digit)
  show "takeWhile isdigit (M @ ws @ p @ r) = M"
    using M w by (simp add: takeWhile_run)
  show "dropWhile isdigit (M @ ws @ p @ r) = ws @ p @ r"
    using M w by (simp add: dropWhile_run)
  from meridiem_shape [OF p] obtain a b where ab: "p = [a, b]" "\<not> isspace a" by blast
  then have q: "\<not> isspace (hd (p @ r))" by simp
  show "takeWhile isspace (ws @ p @ r) = ws"
    using ws q by (simp add: takeWhile_run)
  show "dropWhile isspace (ws @ p @ r) = p @ r"
    using ws q by (simp add: dropWhile_run)
  show "take 2 (p @ r) = p" "drop 2 (p @ r) = r" using ab by simp_all
qed

text \<open>
  The pattern reads a text in one way only, so the first match of the backtracking matcher is
  the only one.
\<close>

lemma format_regex_unique:
  assumes "x \<in> set (format_regex s)" "y \<in> set (format_regex s)"
  shows "x = y"
proof -
  obtain I M p r where x: "x = (I, M, p, r)" by (cases x)
  obtain I' M' p' r' where y: "y = (I', M', p', r')" by (cases y)
  from assms(1) have "(I, M, p, r) \<in> set (format_regex s)" unfolding x .
  then obtain ws where
    a: "s = I @ CHR '':'' # M @ ws @ p @ r" "list_all isdigit I" "list_all isdigit M"
       "ws \<noteq> []" "list_all isspace ws" "lower p = ''am'' \<or> lower p = ''pm''"
    unfolding format_regex_mem by blast
  from assms(2) have "(I', M', p', r') \<in> set (format_regex s)" unfolding y .
  then obtain ws' where
    b: "s = I' @ CHR '':'' # M' @ ws' @ p' @ r'" "list_all isdigit I'" "list_all isdigit M'"
       "ws' \<noteq> []" "list_all isspace ws'" "lower p' = ''am'' \<or> lower p' = ''pm''"
    unfolding format_regex_mem by blast
  note A = parse_unique [OF a] and B = parse_unique [OF b]
  have "I = I'" using A(1) B(1) by simp
  moreover have e1: "M @ ws @ p @ r = M' @ ws' @ p' @ r'" using A(2) B(2) by simp
  moreover have "M = M'" by (metis A(3) B(3) e1)
  moreover have e2: "ws @ p @ r = ws' @ p' @ r'" by (metis A(4) B(4) e1)
  moreover have pr: "p @ r = p' @ r'" by (metis A(6) B(6) e2)
  moreover have "p = p'" by (metis A(7) B(7) pr)
  moreover have "r = r'" by (metis A(8) B(8) pr)
  ultimately show ?thesis using x y by simp
qed

lemma strptime_parts:
  assumes I: "list_all isdigit I" "length I = 1 \<or> length I = 2" "1 \<le> py_int I" "py_int I \<le> 12"
    and M: "list_all isdigit M" "length M = 1 \<or> length M = 2 \<and> py_int M < 60"
    and ws: "ws \<noteq> []" "list_all isspace ws"
    and p: "lower p = ''am'' \<or> lower p = ''pm''"
  shows "strptime (I @ CHR '':'' # M @ ws @ p) =
           Inr (if lower p = ''am'' then py_int I mod 12 else py_int I mod 12 + 12, py_int M)"
proof -
  let ?s = "I @ CHR '':'' # M @ ws @ p"
  have mem: "(I, M, p, []) \<in> set (format_regex ?s)"
    unfolding format_regex_mem using assms by (intro exI [of _ ws]) simp
  then obtain x xs where xs: "format_regex ?s = x # xs"
    by (cases "format_regex ?s") auto
  then have "x \<in> set (format_regex ?s)" by simp
  then have x: "x = (I, M, p, [])" using mem by (rule format_regex_unique)
  have m: "py_int M < 60"
    using M by (auto simp add: len1 py_int1 digit_val_def isdigit_def Let_def)
  show ?thesis
    using I(3,4) m p unfolding strptime_def xs x
    by (auto simp add: Let_def)
qed

lemma strptime_Inr_parts:
  assumes "strptime s = Inr dt"
  shows "\<exists>I M ws p. s = I @ CHR '':'' # M @ ws @ p \<and>
        list_all isdigit I \<and> (length I = 1 \<or> length I = 2) \<and> 1 \<le> py_int I \<and> py_int I \<le> 12 \<and>
        list_all isdigit M \<and> (length M = 1 \<or> length M = 2 \<and> py_int M < 60) \<and>
        ws \<noteq> [] \<and> list_all isspace ws \<and> (lower p = ''am'' \<or> lower p = ''pm'')"
proof -
  from assms obtain I M p xs where "format_regex s = (I, M, p, []) # xs"
    unfolding strptime_def
    by (auto split: list.splits if_splits prod.splits)
  then have "(I, M, p, []) \<in> set (format_regex s)" by simp
  then show ?thesis unfolding format_regex_mem by auto
qed

lemma strptime_range:
  "strptime s = Inr dt \<Longrightarrow> fst dt < 24 \<and> snd dt < 60"
  unfolding strptime_def
  by (auto split: list.splits if_splits prod.splits simp add: Let_def)

lemma lenient_12h_pattern_parts:
  "lenient_12h_pattern s \<longleftrightarrow>
     (\<exists>I M ws p. s = I @ CHR '':'' # M @ ws @ p \<and>
        list_all isdigit I \<and> (length I = 1 \<or> length I = 2) \<and> 1 \<le> py_int I \<and> py_int I \<le> 12 \<and>
        list_all isdigit M \<and> (length M = 1 \<or> length M = 2 \<and> py_int M < 60) \<and>
        ws \<noteq> [] \<and> list_all isspace ws \<and> (lower p = ''am'' \<or> lower p = ''pm''))"
  (is "?L \<longleftrightarrow> ?R")
proof
  assume l: ?L
  let ?I = "takeWhile isdigit s" and ?r1 = "dropWhile isdigit s"
  let ?M = "takeWhile isdigit (tl ?r1)" and ?r2 = "dropWhile isdigit (tl ?r1)"
  let ?ws = "takeWhile isspace ?r2" and ?p = "dropWhile isspace ?r2"
  from l have r1: "?r1 = CHR '':'' # tl ?r1"
    unfolding lenient_12h_pattern_def Let_def by (cases ?r1) auto
  have "s = ?I @ ?r1" by simp
  also have "?r1 = CHR '':'' # tl ?r1" by (rule r1)
  also have "tl ?r1 = ?M @ ?r2" by simp
  also have "?r2 = ?ws @ ?p" by simp
  finally have "s = ?I @ CHR '':'' # ?M @ ?ws @ ?p" .
  moreover have "list_all isdigit ?I" "list_all isdigit ?M" "list_all isspace ?ws"
    by (auto simp add: list_all_iff dest: set_takeWhileD)
  ultimately show ?R
    using l unfolding lenient_12h_pattern_def Let_def
    by (intro exI [of _ ?I] exI [of _ ?M] exI [of _ ?ws] exI [of _ ?p]) simp
next
  assume ?R
  then obtain I M ws p where
    a: "s = I @ CHR '':'' # M @ ws @ p @ []" "list_all isdigit I" "list_all isdigit M"
       "ws \<noteq> []" "list_all isspace ws" "lower p = ''am'' \<or> lower p = ''pm''"
    and b: "length I = 1 \<or> length I = 2" "1 \<le> py_int I" "py_int I \<le> 12"
       "length M = 1 \<or> length M = 2 \<and> py_int M < 60"
    by auto
  note A = parse_unique [OF a]
  note A' = A(1-6) [simplified]
  show ?L
    unfolding lenient_12h_pattern_def Let_def using a(4,6) b by (simp add: A')
qed

lemma strptime_iff: "(\<exists>dt. strptime s = Inr dt) \<longleftrightarrow> lenient_12h_pattern s"
  unfolding lenient_12h_pattern_parts
  using strptime_Inr_parts strptime_parts by blast

section \<open>Properties of the time normalizer\<close>

lemma to_24h_fast_1:
  assumes "strip t = [a, CHR '':'', d, e]" "isdigit a" "isdigit d" "isdigit e"
  shows "to_24h_hhmm t = Inr [CHR ''0'', a, CHR '':'', d, e]"
proof -
  have "fullmatch_hhmm (strip t)"
    using assms by (simp add: fullmatch_hhmm_cases)
  then show ?thesis
    using assms
    by (simp add: to_24h_hhmm_def split_at_1 fmt_py_int1 fmt_py_int2 del: split_at.simps)
qed

lemma to_24h_fast_2:
  assumes "strip t = [a, b, CHR '':'', d, e]" "isdigit a" "isdigit b" "isdigit d" "isdigit e"
  shows "to_24h_hhmm t = Inr [a, b, CHR '':'', d, e]"
proof -
  have "fullmatch_hhmm (strip t)"
    using assms by (simp add: fullmatch_hhmm_cases)
  then show ?thesis
    using assms
    by (simp add: to_24h_hhmm_def split_at_2 fmt_py_int2 del: split_at.simps)
qed

lemma to_24h_canonical:
  assumes "isdigit a" "isdigit b" "isdigit d" "isdigit e"
  shows "to_24h_hhmm [a, b, CHR '':'', d, e] = Inr [a, b, CHR '':'', d, e]"
proof -
  have "strip [a, b, CHR '':'', d, e] = [a, b, CHR '':'', d, e]"
    using assms by (intro strip_id) (simp_all add: isdigit_not_space)
  then show ?thesis using assms by (rule to_24h_fast_2)
qed

lemma to_24h_slow:
  "\<not> fullmatch_hhmm (strip t) \<Longrightarrow>
   to_24h_hhmm t =
     (case strptime (strip t) of
        Inr dt \<Rightarrow> Inr (strftime dt)
      | Inl e \<Rightarrow> Inl (ValueError (''Unrecognized time format: '' @ [CHR 0x27] @ t @ [CHR 0x27])))"
  by (simp add: to_24h_hhmm_def)

lemma to_24h_fast_Inr: "fullmatch_hhmm (strip t) \<Longrightarrow> \<exists>y. to_24h_hhmm t = Inr y"
  unfolding fullmatch_hhmm_cases using to_24h_fast_1 to_24h_fast_2 by blast

lemma to_24h_digits:
  assumes "to_24h_hhmm t = Inr y"
  shows "\<exists>a b d e. y = [a, b, CHR '':'', d, e] \<and> isdigit a \<and> isdigit b \<and> isdigit d \<and> isdigit e"
proof (cases "fullmatch_hhmm (strip t)")
  case True
  then consider a d e where "strip t = [a, CHR '':'', d, e]" "isdigit a" "isdigit d" "isdigit e"
    | a b d e where "strip t = [a, b, CHR '':'', d, e]" "isdigit a" "isdigit b" "isdigit d" "isdigit e"
    unfolding fullmatch_hhmm_cases by blast
  then show ?thesis
  proof cases
    case 1
    have "isdigit CHR ''0''" by (simp add: isdigit_def)
    with 1 assms show ?thesis using to_24h_fast_1 [OF 1] by auto
  next
    case 2
    with assms show ?thesis using to_24h_fast_2 [OF 2] by auto
  qed
next
  case False
  with assms obtain dt where dt: "strptime (strip t) = Inr dt" "y = strftime dt"
    by (auto simp add: to_24h_slow split: sum.splits)
  from strptime_range [OF dt(1)] have "fst dt < 100" "snd dt < 100" by simp_all
  then obtain a b d e where "fmt_02d (fst dt) = [a, b]" "isdigit a" "isdigit b"
    "fmt_02d (snd dt) = [d, e]" "isdigit d" "isdigit e"
    using fmt_02d_digits by metis
  with dt(2) show ?thesis by (simp add: strftime_def)
qed

lemma to_24h_ValueError: "to_24h_hhmm t = Inl e \<Longrightarrow> \<exists>m. e = ValueError m"
  unfolding to_24h_hhmm_def Let_def
  by (auto split: if_splits list.splits sum.splits)

text \<open>
  The digits, numbers and two-digit texts of the specification are those of the code.
\<close>

lemma less_10_cases:
  "(d::nat) < 10 \<Longrightarrow>
   d = 0 \<or> d = 1 \<or> d = 2 \<or> d = 3 \<or> d = 4 \<or> d = 5 \<or> d = 6 \<or> d = 7 \<or> d = 8 \<or> d = 9"
  by arith

lemma digit_char_nth: "d < 10 \<Longrightarrow> digit_char d = digits ! d"
  by (drule less_10_cases, elim disjE) (simp_all add: digits_def digit_char_def char_of_eq_iff)

lemma digits_nth: "d < 10 \<Longrightarrow> digits ! d = digit_char d"
  by (simp add: digit_char_nth)

lemma in_digits_iff: "c \<in> set digits \<longleftrightarrow> isdigit c"
proof
  assume "c \<in> set digits"
  then have "c = CHR ''0'' \<or> c = CHR ''1'' \<or> c = CHR ''2'' \<or> c = CHR ''3'' \<or> c = CHR ''4'' \<or>
      c = CHR ''5'' \<or> c = CHR ''6'' \<or> c = CHR ''7'' \<or> c = CHR ''8'' \<or> c = CHR ''9''"
    by (simp add: digits_def)
  then show "isdigit c" by (elim disjE) (simp_all add: isdigit_def)
next
  assume a: "isdigit c"
  then have b: "digit_val c < 10" by (rule digit_val_lt)
  then have "digits ! digit_val c \<in> set digits"
    by (intro nth_mem) (simp add: digits_def)
  then show "c \<in> set digits"
    using a b by (simp add: digits_nth digit_char_val)
qed

lemma digit_value_eq: "isdigit c \<Longrightarrow> digit_value c = digit_val c"
proof -
  assume "isdigit c"
  then have "c \<in> set digits" by (simp add: in_digits_iff)
  then have "c = CHR ''0'' \<or> c = CHR ''1'' \<or> c = CHR ''2'' \<or> c = CHR ''3'' \<or> c = CHR ''4'' \<or>
      c = CHR ''5'' \<or> c = CHR ''6'' \<or> c = CHR ''7'' \<or> c = CHR ''8'' \<or> c = CHR ''9''"
    by (simp add: digits_def)
  then show ?thesis
    by (elim disjE) (simp_all add: digits_def digit_value_def digit_val_def)
qed

lemma number_eq: "list_all isdigit ds \<Longrightarrow> number ds = py_int ds"
proof -
  have "list_all isdigit ds \<Longrightarrow> foldl (\<lambda>n c. 10 * n + digit_value c) k ds =
      foldl (\<lambda>n c. 10 * n + digit_val c) k ds" for k
    by (induction ds arbitrary: k) (simp_all add: digit_value_eq)
  then show "list_all isdigit ds \<Longrightarrow> number ds = py_int ds"
    by (simp add: number_def py_int_def)
qed

lemma two_digits_eq: "n < 100 \<Longrightarrow> two_digits n = fmt_02d n"
  by (simp add: two_digits_def fmt_02d_lt100 digits_nth)

text \<open>
  Claim C1: on every text of the form \<open>H:MM AM\<close> or \<open>H:MM PM\<close>, with an hour \<open>h\<close> between 1
  and 12 written with one or two digits and a minute \<open>m\<close> between 00 and 59 written with two
  digits, the normalizer succeeds and returns \<open>HH:MM\<close>, each part written with two digits and
  zero-padded: the minute \<open>m\<close>, and the hour \<open>hour24 h mer\<close> of the 24-hour clock, which is 00
  for 12 AM, 12 for 12 PM and 13 for 1 PM.
\<close>

theorem to_24h_hhmm_12h:
  assumes "parse_12h s = Some (h, m, mer)"
  shows "to_24h_hhmm s = Inr (two_digits (hour24 h mer) @ '':'' @ two_digits m)"
proof -
  from assms obtain hh m1 m2 where
    s: "s = hh @ '':'' @ [m1, m2] @ '' '' @ mer"
    and len: "length hh = 1 \<or> length hh = 2"
    and r: "read_12h hh [m1, m2] mer = Some (h, m, mer)"
    unfolding parse_12h_def
    by (auto split: list.splits if_splits simp add: read_12h_def)
  from r have dg: "list_all isdigit hh" "isdigit m1" "isdigit m2"
    and h: "h = number hh" "1 \<le> number hh" "number hh \<le> 12"
    and m: "m = number [m1, m2]" "number [m1, m2] \<le> 59"
    and mer: "mer = ''AM'' \<or> mer = ''PM''"
    unfolding read_12h_def
    by (auto split: if_splits simp add: in_digits_iff list_all_iff)
  have nh: "number hh = py_int hh" using dg(1) by (rule number_eq)
  have nm: "number [m1, m2] = py_int [m1, m2]" using dg(2,3) by (intro number_eq) simp
  have sp: "isspace CHR '' ''" by (simp add: isspace_def)
  have low: "lower mer = ''am'' \<or> lower mer = ''pm''" "lower mer = ''am'' \<longleftrightarrow> mer = ''AM''"
    using mer by (auto simp add: lower_def lower_char_def char_of_eq_iff)
  have st: "strptime (hh @ CHR '':'' # [m1, m2] @ '' '' @ mer) =
      Inr (if lower mer = ''am'' then py_int hh mod 12 else py_int hh mod 12 + 12, py_int [m1, m2])"
    using dg len h(2,3) m(2) sp low(1) unfolding nh nm by (intro strptime_parts) simp_all
  have hd: "isdigit (hd s)" unfolding s using dg(1) len by (cases hh) auto
  have "\<not> isspace (last s)" unfolding s using mer by (auto simp add: isspace_def)
  with hd have strip: "strip s = s"
    unfolding s by (intro strip_id) (simp_all add: isdigit_not_space)
  have "length s \<ge> 7" unfolding s using len mer by auto
  then have nf: "\<not> fullmatch_hhmm s" using fullmatch_hhmm_length [of s] by linarith
  have h24: "hour24 h mer = (if lower mer = ''am'' then h mod 12 else h mod 12 + 12)"
    using mer low(2) by (auto simp add: hour24_def)
  have "hour24 h mer < 100" "m < 100"
    using h m mer by (auto simp add: hour24_def)
  then have td: "two_digits (hour24 h mer) = fmt_02d (hour24 h mer)" "two_digits m = fmt_02d m"
    by (simp_all add: two_digits_eq)
  have "to_24h_hhmm s = Inr (strftime (hour24 h mer, m))"
    using st nf strip h24 h(1) m(1) nh nm
    by (simp add: to_24h_slow s)
  then show ?thesis unfolding td by (simp add: strftime_def)
qed

text \<open>
  The three conversions that claim C1 names, and two times whose parts need the padding.
\<close>

theorem to_24h_hhmm_12h_witness:
  "parse_12h ''12:00 AM'' = Some (12, 0, ''AM'') \<and> to_24h_hhmm ''12:00 AM'' = Inr ''00:00'' \<and>
   parse_12h ''12:30 PM'' = Some (12, 30, ''PM'') \<and> to_24h_hhmm ''12:30 PM'' = Inr ''12:30'' \<and>
   parse_12h ''1:05 PM'' = Some (1, 5, ''PM'') \<and> to_24h_hhmm ''1:05 PM'' = Inr ''13:05'' \<and>
   parse_12h ''7:08 PM'' = Some (7, 8, ''PM'') \<and> to_24h_hhmm ''7:08 PM'' = Inr ''19:08'' \<and>
   parse_12h ''09:59 AM'' = Some (9, 59, ''AM'') \<and> to_24h_hhmm ''09:59 AM'' = Inr ''09:59''"
proof -
  have p: "parse_12h ''12:00 AM'' = Some (12, 0, ''AM'')"
    "parse_12h ''12:30 PM'' = Some (12, 30, ''PM'')"
    "parse_12h ''1:05 PM'' = Some (1, 5, ''PM'')"
    "parse_12h ''7:08 PM'' = Some (7, 8, ''PM'')"
    "parse_12h ''09:59 AM'' = Some (9, 59, ''AM'')"
    by code_simp+
  have e: "two_digits (hour24 12 ''AM'') @ '':'' @ two_digits 0 = ''00:00''"
    "two_digits (hour24 12 ''PM'') @ '':'' @ two_digits 30 = ''12:30''"
    "two_digits (hour24 1 ''PM'') @ '':'' @ two_digits 5 = ''13:05''"
    "two_digits (hour24 7 ''PM'') @ '':'' @ two_digits 8 = ''19:08''"
    "two_digits (hour24 9 ''AM'') @ '':'' @ two_digits 59 = ''09:59''"
    by code_simp+
  note t = p [THEN to_24h_hhmm_12h, unfolded e]
  from p t show ?thesis by blast
qed

text \<open>
  Claim C5 as it is written does not hold: \<open>5:42 pm\<close> matches neither the fast-path pattern
  nor the 12-hour pattern with \<open>AM\<close> or \<open>PM\<close> in capitals, and the normalizer does not
  fail on it.
\<close>

theorem to_24h_hhmm_case_sensitive_counterexample:
  "\<not> spec_fast_pattern ''5:42 pm'' \<and> \<not> spec_12h_pattern ''5:42 pm'' \<and>
   to_24h_hhmm ''5:42 pm'' = Inr ''17:42''"
  by code_simp

text \<open>
  Claim C5, amended: the normalizer fails, with the ValueError for an unrecognized format,
  exactly when its input with the whitespace at both ends removed matches neither the fast-path
  pattern nor the pattern of \<open>%I:%M %p\<close>, which takes \<open>am\<close> and \<open>pm\<close> in any mix of cases,
  any run of whitespace before it, and a minute of one digit.
\<close>

theorem to_24h_hhmm_fails_iff:
  "(isl (to_24h_hhmm t) \<longleftrightarrow> \<not> spec_fast_pattern (strip t) \<and> \<not> lenient_12h_pattern (strip t)) \<and>
   (isl (to_24h_hhmm t) \<longrightarrow>
      to_24h_hhmm t =
        Inl (ValueError (''Unrecognized time format: '' @ [CHR 0x27] @ t @ [CHR 0x27])))"
proof (cases "fullmatch_hhmm (strip t)")
  case True
  then show ?thesis using to_24h_fast_Inr [OF True] by (auto simp add: spec_fast_iff)
next
  case False
  show ?thesis
  proof (cases "lenient_12h_pattern (strip t)")
    case True
    then obtain dt where "strptime (strip t) = Inr dt" using strptime_iff by blast
    with False True show ?thesis by (simp add: to_24h_slow spec_fast_iff)
  next
    case n: False
    then have "\<nexists>dt. strptime (strip t) = Inr dt" using strptime_iff by blast
    then obtain e where "strptime (strip t) = Inl e" by (cases "strptime (strip t)") auto
    with False n show ?thesis by (simp add: to_24h_slow spec_fast_iff)
  qed
qed

text \<open>
  A text that matches neither pattern, and one that only the lenient pattern accepts.
\<close>

theorem to_24h_hhmm_fails_iff_witness:
  "isl (to_24h_hhmm ''noon'') \<and> \<not> spec_fast_pattern (strip ''noon'') \<and>
   \<not> lenient_12h_pattern (strip ''noon'') \<and>
   to_24h_hhmm ''noon'' = Inl (ValueError (''Unrecognized time format: '' @ [CHR 0x27] @ ''noon'' @ [CHR 0x27])) \<and>
   lenient_12h_pattern (strip '' 5:4  pm '') \<and> \<not> isl (to_24h_hhmm '' 5:4  pm '')"
proof -
  have a: "\<not> spec_fast_pattern (strip ''noon'')" "\<not> lenient_12h_pattern (strip ''noon'')"
    "lenient_12h_pattern (strip '' 5:4  pm '')"
    by code_simp+
  from to_24h_hhmm_fails_iff [of "''noon''"] to_24h_hhmm_fails_iff [of "'' 5:4  pm ''"] a
  show ?thesis by simp
qed

text \<open>
  Claim C6: on every input that matches \<open>\d{1,2}:\d{2}\<close> the normalizer returns the two
  numbers of the input, each rendered with two digits: the input itself when its hour has two
  digits, and the input after a zero otherwise. No range is checked.
\<close>

theorem to_24h_hhmm_fast_path:
  assumes "spec_fast_pattern s"
  shows "to_24h_hhmm s =
           Inr (fmt_02d (py_int (takeWhile isdigit s)) @ '':'' @
                fmt_02d (py_int (tl (dropWhile isdigit s)))) \<and>
         to_24h_hhmm s = Inr (if length (takeWhile isdigit s) = 1 then CHR ''0'' # s else s)"
proof -
  have c: "\<not> isdigit CHR '':''" by (simp add: isdigit_def)
  from assms have "fullmatch_hhmm s" by (simp add: spec_fast_iff)
  then consider a d e where "s = [a, CHR '':'', d, e]" "isdigit a" "isdigit d" "isdigit e"
    | a b d e where "s = [a, b, CHR '':'', d, e]" "isdigit a" "isdigit b" "isdigit d" "isdigit e"
    unfolding fullmatch_hhmm_cases by blast
  then show ?thesis
  proof cases
    case 1
    have "strip s = s" unfolding 1 using 1 by (intro strip_id) (simp_all add: isdigit_not_space)
    then have "to_24h_hhmm s = Inr [CHR ''0'', a, CHR '':'', d, e]"
      using 1 by (intro to_24h_fast_1) simp_all
    then show ?thesis using 1 c by (simp add: fmt_py_int1 fmt_py_int2)
  next
    case 2
    have "strip s = s" unfolding 2 using 2 by (intro strip_id) (simp_all add: isdigit_not_space)
    then have "to_24h_hhmm s = Inr [a, b, CHR '':'', d, e]"
      using 2 by (intro to_24h_fast_2) simp_all
    then show ?thesis using 2 c by (simp add: fmt_py_int2)
  qed
qed

text \<open>
  An hour and a minute that are out of range pass through, and a short hour is padded.
\<close>

theorem to_24h_hhmm_fast_path_witness:
  "spec_fast_pattern ''99:99'' \<and> to_24h_hhmm ''99:99'' = Inr ''99:99'' \<and>
   spec_fast_pattern ''7:05'' \<and> to_24h_hhmm ''7:05'' = Inr ''07:05''"
proof -
  have a: "spec_fast_pattern ''99:99''" by code_simp
  have b: "length (takeWhile isdigit ''99:99'') = 2" by code_simp
  have c: "spec_fast_pattern ''7:05''" by code_simp
  have d: "length (takeWhile isdigit ''7:05'') = 1" by code_simp
  have "to_24h_hhmm ''99:99'' =
      Inr (if length (takeWhile isdigit ''99:99'') = 1 then CHR ''0'' # ''99:99'' else ''99:99'')"
    using to_24h_hhmm_fast_path [OF a] by (rule conjunct2)
  then have e: "to_24h_hhmm ''99:99'' = Inr ''99:99''" unfolding b by simp
  have "to_24h_hhmm ''7:05'' =
      Inr (if length (takeWhile isdigit ''7:05'') = 1 then CHR ''0'' # ''7:05'' else ''7:05'')"
    using to_24h_hhmm_fast_path [OF c] by (rule conjunct2)
  then have f: "to_24h_hhmm ''7:05'' = Inr ''07:05''" unfolding d by simp
  from a c e f show ?thesis by blast
qed

text \<open>
  Claim C9: the normalizer is idempotent on its successes: an output of the normalizer is
  normalized to itself.
\<close>

theorem to_24h_hhmm_idempotent:
  assumes "to_24h_hhmm t = Inr y"
  shows "to_24h_hhmm y = Inr y"
  using to_24h_digits [OF assms] to_24h_canonical by blast

text \<open>
  The output for \<open>5:42 PM\<close>, normalized again.
\<close>

theorem to_24h_hhmm_idempotent_witness:
  "to_24h_hhmm ''5:42 PM'' = Inr ''17:42'' \<and> to_24h_hhmm ''17:42'' = Inr ''17:42''"
proof -
  have a: "to_24h_hhmm ''5:42 PM'' = Inr ''17:42''" by code_simp
  from to_24h_hhmm_idempotent [OF a] a show ?thesis by simp
qed

section \<open>The loop over the days\<close>

lemma path_Some:
  "field payload [''data'', ''fasting''] = Some v \<Longrightarrow>
   (case getitem payload ''data'' of Inl e \<Rightarrow> Inl e | Inr data \<Rightarrow> getitem data ''fasting'') = Inr v"
  by (auto simp add: getitem_def split: pyval.splits option.splits)

lemma path_None:
  "field payload [''data'', ''fasting''] = None \<Longrightarrow>
   \<exists>e. (case getitem payload ''data'' of Inl e \<Rightarrow> Inl e | Inr data \<Rightarrow> getitem data ''fasting'') = Inl e"
  by (auto simp add: getitem_def split: pyval.splits option.splits)

lemma field_envelope: "field (envelope x) [''data'', ''fasting''] = Some x"
  by (simp add: envelope_def)

lemma get_ramadan_payload:
  assumes k: "k \<noteq> []"
  shows "get_ramadan (Some k) (Payload payload) =
     (case field payload [''data'', ''fasting''] of
        None \<Rightarrow> Inl upstream_shape_error
      | Some fd \<Rightarrow>
          (case py_iter fd of
             Inl e \<Rightarrow> Inl e
           | Inr days \<Rightarrow>
               (case for_days days [] of
                  Inl e \<Rightarrow> Inl e
                | Inr out \<Rightarrow> if out = [] then Inl empty_result_error else Inr out)))"
proof (cases "field payload [''data'', ''fasting'']")
  case None
  from path_None [OF None] show ?thesis
    unfolding get_ramadan_def using None k by auto
next
  case (Some v)
  from path_Some [OF Some] show ?thesis
    unfolding get_ramadan_def using Some k by simp
qed

lemma call_to_24h_error:
  "call_to_24h_hhmm x = Inl e \<Longrightarrow> e = AttributeError \<or> (\<exists>m. e = ValueError m)"
  using to_24h_ValueError by (auto simp add: call_to_24h_hhmm_def split: pyval.splits)

lemma loop_body_error: "loop_body day = Inl e \<Longrightarrow> e = AttributeError"
  unfolding loop_body_def
  by (auto simp add: dict_get_def split: sum.splits if_splits error.splits pyval.splits
      dest: call_to_24h_error)

lemma loop_body_Some:
  assumes "loop_body day = Inr (Some r)"
  shows "keys r = [''date'', ''sahur'', ''iftar'', ''hijri_readable'', ''day'']"
    and "field r [''hijri_readable''] = Some (or_null (field day [''hijri_readable'']))"
    and "field r [''day''] = Some (or_null (field day [''day'']))"
  using assms unfolding loop_body_def
  by (auto simp add: dict_get_def keys_def or_null_def
      split: sum.splits if_splits error.splits pyval.splits option.splits)

text \<open>
  One round of the loop on a raw record: the record is skipped when it is malformed, and its
  clean record is appended otherwise.
\<close>

lemma loop_body_raw:
  assumes "raw_record day"
  shows "loop_body day = Inr (if malformed day then None else Some (clean day))"
proof -
  from assms obtain kvs where day: "day = PyDict kvs"
    by (auto simp add: raw_record_def split: pyval.splits)
  show ?thesis
  proof (cases "map_of kvs ''time''")
    case None
    then show ?thesis
      unfolding day loop_body_def malformed_def
      by (simp add: dict_get_def missing_or_empty_def)
  next
    case (Some tm)
    with assms day obtain t where tm: "tm = PyDict t"
      and ty: "str_or_null (map_of t ''sahur'')" "str_or_null (map_of t ''iftar'')"
      by (auto simp add: raw_record_def split: pyval.splits)
    have f: "field day [''time'', ''sahur''] = map_of t ''sahur''"
      "field day [''time'', ''iftar''] = map_of t ''iftar''"
      "field day [''date''] = map_of kvs ''date''"
      "field day [''hijri_readable''] = map_of kvs ''hijri_readable''"
      "field day [''day''] = map_of kvs ''day''"
      unfolding day using Some tm by (simp_all split: option.splits)
    show ?thesis
      unfolding loop_body_def malformed_def clean_def f
      unfolding day using Some tm ty
      by (auto simp add: dict_get_def missing_or_empty_def fails_to_normalize_def
          normalized_def or_null_def str_or_null_def call_to_24h_hhmm_def
          split: option.splits pyval.splits sum.splits error.splits
          dest: to_24h_ValueError)
  qed
qed

lemma loop_body_well_formed:
  assumes "well_formed day"
  shows "loop_body day = Inr (Some (clean day))"
proof -
  from assms obtain kvs where day: "day = PyDict kvs"
    by (cases day) (auto simp add: well_formed_def missing_or_empty_def)
  from assms day obtain tm where Some: "map_of kvs ''time'' = Some tm"
    by (cases "map_of kvs ''time''") (auto simp add: well_formed_def normalizes_def)
  from assms day Some obtain t where tm: "tm = PyDict t"
    by (cases tm) (auto simp add: well_formed_def normalizes_def)
  have f: "field day [''time'', ''sahur''] = map_of t ''sahur''"
    "field day [''time'', ''iftar''] = map_of t ''iftar''"
    "field day [''date''] = map_of kvs ''date''"
    "field day [''hijri_readable''] = map_of kvs ''hijri_readable''"
    "field day [''day''] = map_of kvs ''day''"
    unfolding day using Some tm by (simp_all split: option.splits)
  from assms show ?thesis
    unfolding loop_body_def well_formed_def clean_def f
    unfolding day using Some tm
    by (auto simp add: dict_get_def missing_or_empty_def normalizes_def
        normalized_def or_null_def call_to_24h_hhmm_def
        split: option.splits pyval.splits sum.splits error.splits)
qed

lemma for_days_raw:
  "\<forall>d\<in>set days. raw_record d \<Longrightarrow>
   for_days days out = Inr (out @ map clean (filter (\<lambda>d. \<not> malformed d) days))"
  by (induction days arbitrary: out) (simp_all add: loop_body_raw)

lemma for_days_well_formed:
  "\<forall>d\<in>set days. well_formed d \<Longrightarrow> for_days days out = Inr (out @ map clean days)"
  by (induction days arbitrary: out) (simp_all add: loop_body_well_formed)

lemma for_days_error: "for_days days out = Inl e \<Longrightarrow> e = AttributeError"
  by (induction days arbitrary: out)
    (auto split: sum.splits option.splits dest: loop_body_error)

lemma for_days_elems:
  "for_days days out = Inr res \<Longrightarrow> r \<in> set res \<Longrightarrow>
   r \<in> set out \<or> (\<exists>d\<in>set days. loop_body d = Inr (Some r))"
proof (induction days arbitrary: out)
  case Nil
  then show ?case by simp
next
  case (Cons d days)
  show ?case
  proof (cases "loop_body d")
    case (Inl e)
    with Cons.prems show ?thesis by simp
  next
    case (Inr step)
    show ?thesis
    proof (cases step)
      case None
      with Inr Cons.prems have "for_days days out = Inr res" by simp
      from Cons.IH [OF this Cons.prems(2)] show ?thesis by auto
    next
      case (Some x)
      with Inr Cons.prems have "for_days days (out @ [x]) = Inr res" by simp
      from Cons.IH [OF this Cons.prems(2)] Inr Some show ?thesis by auto
    qed
  qed
qed

lemma py_iter_error: "py_iter v = Inl e \<Longrightarrow> e = TypeError"
  by (auto simp add: py_iter_def split: pyval.splits)

lemma error_distinct:
  "missing_key_error \<noteq> upstream_shape_error" "missing_key_error \<noteq> empty_result_error"
  "empty_result_error \<noteq> upstream_shape_error"
  "HTTPException 502 (''Upstream IslamicAPI error: HTTP '' @ x) \<noteq> upstream_shape_error"
  "HTTPException 502 (''Upstream IslamicAPI error: HTTP '' @ x) \<noteq> empty_result_error"
  "HTTPException 502 (''Failed to fetch Ramadan data: '' @ y) \<noteq> upstream_shape_error"
  "HTTPException 502 (''Failed to fetch Ramadan data: '' @ y) \<noteq> empty_result_error"
  "AttributeError \<noteq> upstream_shape_error" "TypeError \<noteq> upstream_shape_error"
  "AttributeError \<noteq> empty_result_error" "TypeError \<noteq> empty_result_error"
  by (simp_all add: missing_key_error_def upstream_shape_error_def empty_result_error_def)

section \<open>Properties of the fetcher\<close>

text \<open>
  Claim C2 does not hold of the code: a record whose \<open>sahur\<close> is \<open>25:61\<close> goes through the
  fast path of the normalizer, which checks no range, and the response carries \<open>25:61\<close>.
\<close>

theorem get_ramadan_unchecked_range:
  "get_ramadan (Some ''key'')
     (Payload (envelope (PyList
        [PyDict [(''date'', PyStr ''2025-03-01''),
                 (''time'', PyDict [(''sahur'', PyStr ''25:61''), (''iftar'', PyStr ''5:48 PM'')])]]))) =
     Inr [PyDict [(''date'', PyStr ''2025-03-01''), (''sahur'', PyStr ''25:61''),
                  (''iftar'', PyStr ''17:48''), (''hijri_readable'', PyNone), (''day'', PyNone)]]"
  by code_simp

text \<open>
  Claim C3 does not hold of the code. In a record whose \<open>time\<close> is null the field \<open>time.sahur\<close>
  is missing, and the loop means to skip such a record; but \<open>time_obj.get\<close> raises an
  AttributeError that nothing catches, and the well-formed record that follows never reaches
  the response. The same record without the member \<open>time\<close> is dropped as the claim says.
\<close>

theorem get_ramadan_null_time:
  "malformed (PyDict [(''date'', PyStr ''2025-03-01''), (''time'', PyNone)]) \<and>
   well_formed example_day \<and>
   get_ramadan (Some ''key'')
     (Payload (envelope (PyList
        [PyDict [(''date'', PyStr ''2025-03-01''), (''time'', PyNone)], example_day]))) =
     Inl AttributeError \<and>
   malformed (PyDict [(''date'', PyStr ''2025-03-01'')]) \<and>
   get_ramadan (Some ''key'')
     (Payload (envelope (PyList [PyDict [(''date'', PyStr ''2025-03-01'')], example_day]))) =
     Inr [example_clean]"
  by code_simp

text \<open>
  On raw records the loop is a filter: the malformed records are dropped, and the clean records
  of the others are the response, in the order of upstream.
\<close>

lemma get_ramadan_raw_records:
  assumes "k \<noteq> []"
    and "field payload [''data'', ''fasting''] = Some (PyList days)"
    and "\<forall>d\<in>set days. raw_record d"
  shows "get_ramadan (Some k) (Payload payload) =
           (if filter (\<lambda>d. \<not> malformed d) days = [] then Inl empty_result_error
            else Inr (map clean (filter (\<lambda>d. \<not> malformed d) days)))"
  using assms by (simp add: get_ramadan_payload py_iter_def for_days_raw)

lemma get_ramadan_raw_records_example:
  "get_ramadan (Some ''key'')
     (Payload (envelope (PyList
        [PyDict [(''date'', PyStr ''2025-02-28'')],
         example_day,
         PyDict [(''date'', PyStr ''2025-03-02''),
                 (''time'', PyDict [(''sahur'', PyStr ''soon''), (''iftar'', PyStr ''5:49 PM'')])]]))) =
     Inr [example_clean]"
proof -
  let ?a = "PyDict [(''date'', PyStr ''2025-02-28'')]"
  let ?b = "PyDict [(''date'', PyStr ''2025-03-02''),
                 (''time'', PyDict [(''sahur'', PyStr ''soon''), (''iftar'', PyStr ''5:49 PM'')])]"
  have r: "raw_record ?a" "raw_record example_day" "raw_record ?b" by code_simp+
  have m: "malformed ?a" "\<not> malformed example_day" "malformed ?b" by code_simp+
  have c: "clean example_day = example_clean" by code_simp
  have "get_ramadan (Some ''key'') (Payload (envelope (PyList [?a, example_day, ?b]))) =
      (if filter (\<lambda>d. \<not> malformed d) [?a, example_day, ?b] = [] then Inl empty_result_error
       else Inr (map clean (filter (\<lambda>d. \<not> malformed d) [?a, example_day, ?b])))"
    using r by (intro get_ramadan_raw_records field_envelope) simp_all
  then show ?thesis using m c by simp
qed

text \<open>
  Claim C4 as it is written does not hold for N = 0: every record of the empty list is
  well-formed, and the fetcher fails.
\<close>

theorem get_ramadan_no_records_counterexample:
  "list_all well_formed [] \<and>
   get_ramadan (Some ''key'') (Payload (envelope (PyList []))) = Inl empty_result_error"
  by code_simp

text \<open>
  Claim C4, amended: when \<open>data.fasting\<close> is a list of N well-formed records and N is at
  least 1, the fetcher succeeds and returns the N clean records in the order of upstream.
\<close>

theorem get_ramadan_well_formed:
  assumes "k \<noteq> []"
    and "field payload [''data'', ''fasting''] = Some (PyList days)"
    and "days \<noteq> []"
    and "\<forall>d\<in>set days. well_formed d"
  shows "get_ramadan (Some k) (Payload payload) = Inr (map clean days)"
  using assms by (simp add: get_ramadan_payload py_iter_def for_days_well_formed)

text \<open>
  The end-to-end example of claim C4.
\<close>

theorem get_ramadan_well_formed_witness:
  "get_ramadan (Some ''key'') (Payload (envelope (PyList [example_day]))) = Inr [example_clean]"
proof -
  have w: "well_formed example_day" by code_simp
  have c: "clean example_day = example_clean" by code_simp
  have "get_ramadan (Some ''key'') (Payload (envelope (PyList [example_day]))) =
      Inr (map clean [example_day])"
    using w by (intro get_ramadan_well_formed field_envelope) simp_all
  then show ?thesis using c by simp
qed

text \<open>
  Claim C7: when the loop over \<open>data.fasting\<close> ends with nothing appended, as it does on an
  empty list and on a list of raw records that are all malformed, the fetcher fails with the
  error for an empty result, an HTTP 502 of its own; the fetcher never returns an empty list;
  and the errors of a failed request are never the error for an empty result.
\<close>

theorem get_ramadan_empty_result:
  "(k \<noteq> [] \<and> field payload [''data'', ''fasting''] = Some fd \<and> py_iter fd = Inr days \<and>
      for_days days [] = Inr [] \<longrightarrow>
    get_ramadan (Some k) (Payload payload) = Inl empty_result_error) \<and>
   (k \<noteq> [] \<and> field payload [''data'', ''fasting''] = Some (PyList days) \<and>
      (\<forall>d\<in>set days. raw_record d \<and> malformed d) \<longrightarrow>
    get_ramadan (Some k) (Payload payload) = Inl empty_result_error) \<and>
   empty_result_error = HTTPException 502 ''No fasting days returned from IslamicAPI.'' \<and>
   get_ramadan api_key resp \<noteq> Inr [] \<and>
   get_ramadan api_key (HTTPStatusError code body) \<noteq> Inl empty_result_error \<and>
   get_ramadan api_key (RequestFailed msg) \<noteq> Inl empty_result_error"
proof (intro conjI impI)
  assume "k \<noteq> [] \<and> field payload [''data'', ''fasting''] = Some fd \<and> py_iter fd = Inr days \<and>
      for_days days [] = Inr []"
  then show "get_ramadan (Some k) (Payload payload) = Inl empty_result_error"
    by (simp add: get_ramadan_payload)
next
  assume a: "k \<noteq> [] \<and> field payload [''data'', ''fasting''] = Some (PyList days) \<and>
      (\<forall>d\<in>set days. raw_record d \<and> malformed d)"
  then have "filter (\<lambda>d. \<not> malformed d) days = []" by (simp add: filter_empty_conv)
  moreover from a have "\<forall>d\<in>set days. raw_record d" by blast
  ultimately have "for_days days [] = Inr []" by (simp add: for_days_raw)
  with a show "get_ramadan (Some k) (Payload payload) = Inl empty_result_error"
    by (simp add: get_ramadan_payload py_iter_def)
next
  show "empty_result_error = HTTPException 502 ''No fasting days returned from IslamicAPI.''"
    by (simp add: empty_result_error_def)
next
  show "get_ramadan api_key resp \<noteq> Inr []"
    unfolding get_ramadan_def
    by (auto split: upstream.splits sum.splits)
next
  show "get_ramadan api_key (HTTPStatusError code body) \<noteq> Inl empty_result_error"
    unfolding get_ramadan_def using error_distinct by auto
next
  show "get_ramadan api_key (RequestFailed msg) \<noteq> Inl empty_result_error"
    unfolding get_ramadan_def using error_distinct by auto
qed

text \<open>
  An empty list, and a list whose only record has an empty \<open>date\<close>.
\<close>

theorem get_ramadan_empty_result_witness:
  "get_ramadan (Some ''key'') (Payload (envelope (PyList []))) = Inl empty_result_error \<and>
   get_ramadan (Some ''key'') (Payload (envelope (PyList [PyDict [(''date'', PyStr [])]]))) =
     Inl empty_result_error"
proof -
  let ?d = "PyDict [(''date'', PyStr [])]"
  have a: "for_days [] [] = Inr []" by simp
  have b: "raw_record ?d" "malformed ?d" by code_simp+
  have "get_ramadan (Some ''key'') (Payload (envelope (PyList []))) = Inl empty_result_error"
    using a get_ramadan_empty_result
      [where k = "''key''" and payload = "envelope (PyList [])" and fd = "PyList []"
        and days = "[]"]
    by (simp add: envelope_def py_iter_def)
  moreover have "get_ramadan (Some ''key'') (Payload (envelope (PyList [?d]))) =
      Inl empty_result_error"
    using b get_ramadan_empty_result
      [where k = "''key''" and payload = "envelope (PyList [?d])" and days = "[?d]"]
    by (simp add: envelope_def)
  ultimately show ?thesis by simp
qed

text \<open>
  Claim C8 does not hold of the code. A body whose \<open>data.fasting\<close> is null has no list at that
  path, and the fetcher ends with a TypeError that nothing catches, raised by the loop outside
  the \<open>try\<close>; a body whose \<open>data\<close> is null or a list has no list at the path either, and gets
  the shape error from the \<open>try\<close>.
\<close>

theorem get_ramadan_fasting_null:
  "\<not> has_fasting_list (envelope PyNone) \<and>
   get_ramadan (Some ''key'') (Payload (envelope PyNone)) = Inl TypeError \<and>
   get_ramadan (Some ''key'') (Payload (envelope PyNone)) \<noteq> Inl upstream_shape_error \<and>
   \<not> has_fasting_list (PyDict [(''data'', PyNone)]) \<and>
   get_ramadan (Some ''key'') (Payload (PyDict [(''data'', PyNone)])) = Inl upstream_shape_error \<and>
   \<not> has_fasting_list (PyDict [(''data'', PyList [])]) \<and>
   get_ramadan (Some ''key'') (Payload (PyDict [(''data'', PyList [])])) = Inl upstream_shape_error"
  by code_simp

text \<open>
  The shape error is raised for the bodies with nothing at path \<open>data.fasting\<close>, and for no
  other reason.
\<close>

lemma shape_error_iff:
  "get_ramadan api_key resp = Inl upstream_shape_error \<longleftrightarrow>
     (\<exists>k payload. api_key = Some k \<and> k \<noteq> [] \<and> resp = Payload payload \<and>
        field payload [''data'', ''fasting''] = None)"
  (is "?L \<longleftrightarrow> ?R")
proof
  assume ?R
  then show ?L by (auto simp add: get_ramadan_payload)
next
  assume l: ?L
  then obtain k where k: "api_key = Some k" "k \<noteq> []"
    unfolding get_ramadan_def using error_distinct(1)
    by (cases api_key) (auto split: if_splits)
  from l k obtain payload where p: "resp = Payload payload"
    unfolding get_ramadan_def using error_distinct(4,6)
    by (cases resp) auto
  have "field payload [''data'', ''fasting''] = None"
  proof (rule ccontr)
    assume "field payload [''data'', ''fasting''] \<noteq> None"
    then obtain fd where fd: "field payload [''data'', ''fasting''] = Some fd" by blast
    from l show False
      unfolding k p get_ramadan_payload [OF k(2)] fd
      using error_distinct
      by (auto split: sum.splits if_splits dest!: py_iter_error for_days_error)
  qed
  with k p show ?R by blast
qed

lemma shape_error_iff_example:
  "get_ramadan (Some ''key'') (Payload (PyDict [(''data'', PyList [])])) =
     Inl upstream_shape_error \<and>
   get_ramadan (Some ''key'') (Payload (envelope (PyList []))) \<noteq> Inl upstream_shape_error"
proof -
  have a: "field (PyDict [(''data'', PyList [])]) [''data'', ''fasting''] = None" by simp
  show ?thesis
    using shape_error_iff [of "Some ''key''" "Payload (PyDict [(''data'', PyList [])])"]
      shape_error_iff [of "Some ''key''" "Payload (envelope (PyList []))"] a
    by (simp add: envelope_def)
qed

text \<open>
  Claim C10: every record of a successful response has exactly the keys \<open>date\<close>, \<open>sahur\<close>,
  \<open>iftar\<close>, \<open>hijri_readable\<close> and \<open>day\<close>, and the last two are null when the record of
  upstream that it comes from has no such member.
\<close>

theorem get_ramadan_record_keys:
  assumes "get_ramadan api_key resp = Inr out" and "r \<in> set out"
  shows "keys r = [''date'', ''sahur'', ''iftar'', ''hijri_readable'', ''day''] \<and>
         (\<exists>payload fd days day.
            resp = Payload payload \<and> field payload [''data'', ''fasting''] = Some fd \<and>
            py_iter fd = Inr days \<and> day \<in> set days \<and> loop_body day = Inr (Some r) \<and>
            (field day [''hijri_readable''] = None \<longrightarrow>
               field r [''hijri_readable''] = Some PyNone) \<and>
            (field day [''day''] = None \<longrightarrow> field r [''day''] = Some PyNone))"
proof -
  from assms(1) obtain k where k: "api_key = Some k" "k \<noteq> []"
    unfolding get_ramadan_def by (cases api_key) (auto split: if_splits)
  from assms(1) k obtain payload where p: "resp = Payload payload"
    unfolding get_ramadan_def by (cases resp) auto
  from assms(1) obtain fd days where
    fd: "field payload [''data'', ''fasting''] = Some fd" "py_iter fd = Inr days"
      "for_days days [] = Inr out"
    unfolding k p get_ramadan_payload [OF k(2)]
    by (auto split: option.splits sum.splits if_splits)
  from for_days_elems [OF fd(3) assms(2)] obtain day where
    day: "day \<in> set days" "loop_body day = Inr (Some r)" by auto
  note ls = loop_body_Some [OF day(2)]
  have n: "field day [''hijri_readable''] = None \<longrightarrow> field r [''hijri_readable''] = Some PyNone"
    "field day [''day''] = None \<longrightarrow> field r [''day''] = Some PyNone"
    using ls(2,3) by (simp_all add: or_null_def)
  show ?thesis
  proof (intro conjI exI)
    show "keys r = [''date'', ''sahur'', ''iftar'', ''hijri_readable'', ''day'']" by (rule ls(1))
    show "resp = Payload payload" by (rule p)
    show "field payload [''data'', ''fasting''] = Some fd" by (rule fd(1))
    show "py_iter fd = Inr days" by (rule fd(2))
    show "day \<in> set days" by (rule day(1))
    show "loop_body day = Inr (Some r)" by (rule day(2))
    show "field day [''hijri_readable''] = None \<longrightarrow> field r [''hijri_readable''] = Some PyNone"
      by (rule n(1))
    show "field day [''day''] = None \<longrightarrow> field r [''day''] = Some PyNone" by (rule n(2))
  qed
qed

text \<open>
  A record of upstream without \<open>hijri_readable\<close> and \<open>day\<close>.
\<close>

theorem get_ramadan_record_keys_witness:
  "get_ramadan (Some ''key'')
     (Payload (envelope (PyList
        [PyDict [(''date'', PyStr ''2025-03-02''),
                 (''time'', PyDict [(''sahur'', PyStr ''5:41 AM''), (''iftar'', PyStr ''5:49 PM'')])]]))) =
     Inr [PyDict [(''date'', PyStr ''2025-03-02''), (''sahur'', PyStr ''05:41''),
                  (''iftar'', PyStr ''17:49''), (''hijri_readable'', PyNone), (''day'', PyNone)]] \<and>
   keys (PyDict [(''date'', PyStr ''2025-03-02''), (''sahur'', PyStr ''05:41''),
                  (''iftar'', PyStr ''17:49''), (''hijri_readable'', PyNone), (''day'', PyNone)]) =
     [''date'', ''sahur'', ''iftar'', ''hijri_readable'', ''day'']"
proof -
  let ?r = "PyDict [(''date'', PyStr ''2025-03-02''), (''sahur'', PyStr ''05:41''),
                  (''iftar'', PyStr ''17:49''), (''hijri_readable'', PyNone), (''day'', PyNone)]"
  have a: "get_ramadan (Some ''key'')
     (Payload (envelope (PyList
        [PyDict [(''date'', PyStr ''2025-03-02''),
                 (''time'', PyDict [(''sahur'', PyStr ''5:41 AM''), (''iftar'', PyStr ''5:49 PM'')])]]))) =
     Inr [?r]" by code_simp
  have "?r \<in> set [?r]" by simp
  from get_ramadan_record_keys [OF a this] a show ?thesis by blast
qed

end
